theory Spec2Isabelle
  imports
    Complex_Main
    "HOL-Library.Char_ord"
    "HOL-Library.List_Lexorder"
    "HOL-Library.Product_Lexorder"
begin

section \<open>Python values: exceptions and dictionaries\<close>

text \<open>
  An exception that leaves a function is a value: functions that can raise return
  \<open>py_error + 'a\<close>, with \<open>Inl\<close> for the exception.
\<close>

datatype py_error = IndexError | KeyError | ValueError | ZeroDivisionError | AssertionError

text \<open>
  A Python \<open>dict\<close> keeps its items in insertion order, and the scripts iterate over
  \<open>items()\<close>.  A dictionary is therefore an association list in iteration order.
  \<open>d[k] = v\<close> replaces the value in place when the key is present and appends the item
  otherwise; \<open>k in d\<close> looks at the keys.
\<close>

type_synonym ('k, 'v) dict = "('k \<times> 'v) list"

fun dict_set :: "('k, 'v) dict \<Rightarrow> 'k \<Rightarrow> 'v \<Rightarrow> ('k, 'v) dict" where
  "dict_set [] k v = [(k, v)]"
| "dict_set ((k', v') # kvs) k v =
     (if k' = k then (k, v) # kvs else (k', v') # dict_set kvs k v)"

definition dict_in :: "'k \<Rightarrow> ('k, 'v) dict \<Rightarrow> bool" where
  "dict_in k d = (k \<in> set (map fst d))"

section \<open>CodeNormalizer: \<open>fix_color_registry_codes.py\<close>\<close>

subsection \<open>Character classes and the two regular expressions\<close>

text \<open>
  Codes are HOL strings.  \<open>[A-Z]\<close> is the class of the 26 capital letters and \<open>\d\<close>,
  on the characters a HOL string has, the class of the ten digits \<open>0\<close> to \<open>9\<close>.
\<close>

definition is_upper :: "char \<Rightarrow> bool" where
  "is_upper c = (c \<in> set ''ABCDEFGHIJKLMNOPQRSTUVWXYZ'')"

definition is_digit :: "char \<Rightarrow> bool" where
  "is_digit c = (c \<in> set ''0123456789'')"

text \<open>
  Without \<open>re.MULTILINE\<close>, \<open>$\<close> matches at the end of the string and also just before
  a newline that is the last character.  Neither pattern can consume a newline, so a
  match against \<open>code\<close> is a match of the whole of \<open>code\<close> with one final newline taken
  off.
\<close>

definition before_final_newline :: "string \<Rightarrow> string" where
  "before_final_newline s = (if s \<noteq> [] \<and> last s = CHR 0x0A then butlast s else s)"

text \<open>\<open>CODE_RE = re.compile(r"^([A-Z]{2})(\d+)$")\<close>; the result is \<open>m.groups()\<close>.\<close>

definition CODE_RE :: "string \<Rightarrow> (string \<times> string) option" where
  "CODE_RE code =
     (let s = before_final_newline code; prefix = take 2 s; digits = drop 2 s
      in if length prefix = 2 \<and> list_all is_upper prefix
            \<and> digits \<noteq> [] \<and> list_all is_digit digits
         then Some (prefix, digits) else None)"

text \<open>\<open>I_MIS_OCR_RE = re.compile(r"^([A-Z]{2})I(\d+)$")\<close>.\<close>

definition I_MIS_OCR_RE :: "string \<Rightarrow> (string \<times> string) option" where
  "I_MIS_OCR_RE code =
     (let s = before_final_newline code; prefix = take 2 s; digits = drop 3 s
      in if length prefix = 2 \<and> list_all is_upper prefix
            \<and> take 1 (drop 2 s) = ''I''
            \<and> digits \<noteq> [] \<and> list_all is_digit digits
         then Some (prefix, digits) else None)"

subsection \<open>\<open>int(digits)\<close> and the format \<open>:03d\<close>\<close>

definition digit_val :: "char \<Rightarrow> nat" where
  "digit_val c = of_char c - 48"

definition py_int :: "string \<Rightarrow> nat" where
  "py_int ds = foldl (\<lambda>a c. 10 * a + digit_val c) 0 ds"

definition digit_char :: "nat \<Rightarrow> char" where
  "digit_char d = ''0123456789'' ! d"

fun show_nat :: "nat \<Rightarrow> string" where
  "show_nat n =
     (if n < 10 then [digit_char n] else show_nat (n div 10) @ [digit_char (n mod 10)])"

declare show_nat.simps [simp del]

definition format_03d :: "nat \<Rightarrow> string" where
  "format_03d n = (let s = show_nat n in replicate (3 - length s) (CHR ''0'') @ s)"

subsection \<open>\<open>normalize_code\<close>\<close>

definition normalize_code :: "string \<Rightarrow> string" where
  "normalize_code code0 =
     (let code = (case I_MIS_OCR_RE code0 of
                    Some (prefix, digits) \<Rightarrow> prefix @ ''1'' @ digits
                  | None \<Rightarrow> code0)
      in case CODE_RE code of
           None \<Rightarrow> code
         | Some (prefix, digits) \<Rightarrow>
             if length digits \<ge> 3 then code else prefix @ format_03d (py_int digits))"

subsection \<open>The renaming loop of \<open>main\<close>\<close>

text \<open>
  The loop never looks inside an entry, so the entry type is a parameter; the registry
  document has entries with a file path and an RGB list.  The state of the loop is the
  dictionary \<open>remapped\<close>, the list \<open>changed\<close> and the duplicate warnings printed so far
  (each as the pair of the raw and the normalized code it names).
\<close>

record color_entry =
  entry_file :: string
  entry_rgb :: "int list"

record 'e fix_state =
  remapped :: "(string, 'e) dict"
  changed :: "(string \<times> string) list"
  warnings :: "(string \<times> string) list"

definition fix_init :: "'e fix_state" where
  "fix_init = \<lparr>remapped = [], changed = [], warnings = []\<rparr>"

definition fix_step :: "'e fix_state \<Rightarrow> string \<times> 'e \<Rightarrow> 'e fix_state" where
  "fix_step st item =
     (let code = fst item; entry = snd item; new_code = normalize_code code
      in if dict_in new_code (remapped st)
         then st\<lparr>warnings := warnings st @ [(code, new_code)]\<rparr>
         else let st' = (if new_code \<noteq> code
                         then st\<lparr>changed := changed st @ [(code, new_code)]\<rparr> else st)
              in st'\<lparr>remapped := dict_set (remapped st') new_code entry\<rparr>)"

definition fix_loop :: "(string, 'e) dict \<Rightarrow> 'e fix_state" where
  "fix_loop registry = foldl fix_step fix_init registry"

definition fix_registry :: "(string, 'e) dict \<Rightarrow> 'e fix_state" where
  "fix_registry registry = (let st = fix_loop registry in st\<lparr>changed := sort (changed st)\<rparr>)"

text \<open>
  For the statement of which entries the loop drops: the positions of the registry whose
  normalized code already occurs, normalized, at an earlier position.
\<close>

definition dropped_positions :: "(string, 'e) dict \<Rightarrow> nat list" where
  "dropped_positions reg =
     filter (\<lambda>i. normalize_code (fst (reg ! i)) \<in> normalize_code ` fst ` set (take i reg))
       [0..<length reg]"


section \<open>SwatchSampler: the sampling region of \<open>build_color_registry.py\<close>\<close>

text \<open>
  \<open>sample_color\<close> crops the box \<open>(left, top, right, bottom)\<close> computed below from the
  image size and takes the per-channel median of the crop.  The box is the part modelled
  here; width and height are Python integers.
\<close>

definition sample_color_region :: "int \<Rightarrow> int \<Rightarrow> int \<times> int \<times> int \<times> int" where
  "sample_color_region width height =
     (let left = min 70 (width - 1);
          right = min 170 width;
          top = min 25 (height - 1);
          bottom = min 80 height
      in (left, top, right, bottom))"

section \<open>The inverse index: \<open>create_hex_color_registry.py\<close>\<close>

text \<open>
  The format \<open>{:02x}\<close> of a Python integer: lowercase hexadecimal, zero-padded to a
  total width of 2, the sign of a negative number counting towards the width.
\<close>

definition hex_char :: "nat \<Rightarrow> char" where
  "hex_char d = ''0123456789abcdef'' ! d"

fun hex_nat :: "nat \<Rightarrow> string" where
  "hex_nat n = (if n < 16 then [hex_char n] else hex_nat (n div 16) @ [hex_char (n mod 16)])"

declare hex_nat.simps [simp del]

definition format_02x :: "int \<Rightarrow> string" where
  "format_02x n =
     (if n < 0
      then (let s = hex_nat (nat (- n)) in CHR ''-'' # replicate (1 - length s) (CHR ''0'') @ s)
      else (let s = hex_nat (nat n) in replicate (2 - length s) (CHR ''0'') @ s))"

text \<open>\<open>rgb[0]\<close>, \<open>rgb[1]\<close>, \<open>rgb[2]\<close> raise \<open>IndexError\<close> on a list that is too short.\<close>

fun rgb_to_hex :: "int list \<Rightarrow> py_error + string" where
  "rgb_to_hex (r # g # b # rest) = Inr (''#'' @ format_02x r @ format_02x g @ format_02x b)"
| "rgb_to_hex rgb = Inl IndexError"

text \<open>
  The loop of \<open>create_hex_color_registry\<close> over \<open>color_registry.items()\<close>.  An entry
  without an \<open>rgb\<close> key reads as the empty list (\<open>data.get('rgb', [])\<close>) and is skipped
  like any list whose length is not 3; such an entry is \<open>entry_rgb = []\<close> here.  The
  result is the dictionary written to the output file.
\<close>

definition hex_step ::
  "py_error + (string, string) dict \<Rightarrow> string \<times> color_entry \<Rightarrow> py_error + (string, string) dict"
where
  "hex_step acc item =
     (case acc of
        Inl e \<Rightarrow> Inl e
      | Inr hex_registry \<Rightarrow>
          (let color_code = fst item; rgb = entry_rgb (snd item)
           in if length rgb = 3
              then (case rgb_to_hex rgb of
                      Inl e \<Rightarrow> Inl e
                    | Inr hex_code \<Rightarrow> Inr (dict_set hex_registry hex_code color_code))
              else Inr hex_registry))"

definition create_hex_color_registry ::
  "(string, color_entry) dict \<Rightarrow> py_error + (string, string) dict" where
  "create_hex_color_registry color_registry = foldl hex_step (Inr []) color_registry"


section \<open>PaletteIndex and DesignGenerator: \<open>generate_design_from_image.py\<close>\<close>

subsection \<open>\<open>rgb_distance\<close> and \<open>nearest_yuzu_color\<close>\<close>

text \<open>
  A colour is a triple of integers (\<open>Tuple[int, int, int]\<close>), and the palette maps a code
  to the \<open>rgb\<close> of its entry.  \<open>rgb_distance\<close> is the Euclidean norm of the difference,
  taken here in the reals: for channel values of a few digits the square root in double
  precision orders the distances as the exact one does.
\<close>

type_synonym rgb = "int \<times> int \<times> int"

definition rgb_distance :: "rgb \<Rightarrow> rgb \<Rightarrow> real" where
  "rgb_distance c1 c2 =
     (case c1 of (r1, g1, b1) \<Rightarrow> case c2 of (r2, g2, b2) \<Rightarrow>
        sqrt (real_of_int ((r1 - r2) ^ 2 + (g1 - g2) ^ 2 + (b1 - b2) ^ 2)))"

text \<open>
  The loop state is \<open>(best_code, best_dist)\<close>; \<open>None\<close> stands for the initial \<open>None\<close>
  of \<open>best_code\<close> and for the initial \<open>float("inf")\<close> of \<open>best_dist\<close>, below which every
  distance lies.  The comparison is strict, so a later entry at the same distance does
  not replace the best one.  The final \<open>assert\<close> fails on an empty palette.
\<close>

definition nearest_step ::
  "rgb \<Rightarrow> string option \<times> real option \<Rightarrow> string \<times> rgb \<Rightarrow> string option \<times> real option" where
  "nearest_step rgb st item =
     (let code = fst item; dist = rgb_distance rgb (snd item)
      in if (case snd st of None \<Rightarrow> True | Some best_dist \<Rightarrow> dist < best_dist)
         then (Some code, Some dist) else st)"

definition nearest_yuzu_color :: "rgb \<Rightarrow> (string, rgb) dict \<Rightarrow> py_error + string" where
  "nearest_yuzu_color rgb palette =
     (case fst (foldl (nearest_step rgb) (None, None) palette) of
        None \<Rightarrow> Inl AssertionError
      | Some best_code \<Rightarrow> Inr best_code)"

subsection \<open>Geometry entries and \<open>build_keyboard_bbox_map\<close>\<close>

text \<open>
  An entry of the key position registry.  Python floats are modelled as rationals with
  exact arithmetic.
\<close>

record key_entry =
  label :: "string option"
  x_u :: rat
  y_u :: rat
  width_u :: rat
  height_u :: rat
  left_u :: rat
  top_u :: rat
  right_u :: rat
  bottom_u :: rat

text \<open>\<open>int(x)\<close> of a float truncates towards zero.\<close>

definition py_trunc :: "rat \<Rightarrow> int" where
  "py_trunc x = (if 0 \<le> x then \<lfloor>x\<rfloor> else \<lceil>x\<rceil>)"

text \<open>\<open>max\<close> of an empty sequence raises \<open>ValueError\<close>.\<close>

fun py_max :: "rat list \<Rightarrow> py_error + rat" where
  "py_max [] = Inl ValueError"
| "py_max (x # xs) = Inr (fold max xs x)"

type_synonym bbox = "int \<times> int \<times> int \<times> int"

definition bbox_step :: "rat \<Rightarrow> (string, bbox) dict \<Rightarrow> string \<times> key_entry \<Rightarrow> (string, bbox) dict"
where
  "bbox_step px_per_u bboxes item =
     (let key_id = fst item; key = snd item;
          x0 = py_trunc (left_u key * px_per_u);
          y0 = py_trunc (top_u key * px_per_u);
          x1 = py_trunc (right_u key * px_per_u);
          y1 = py_trunc (bottom_u key * px_per_u)
      in dict_set bboxes key_id (x0, y0, x1, y1))"

definition build_keyboard_bbox_map ::
  "int \<Rightarrow> (string, key_entry) dict \<Rightarrow> py_error + (string, bbox) dict" where
  "build_keyboard_bbox_map image_width registry =
     (case py_max (map (\<lambda>item. right_u (snd item)) registry) of
        Inl e \<Rightarrow> Inl e
      | Inr total_width_u \<Rightarrow>
          if total_width_u = 0 then Inl ZeroDivisionError
          else (let px_per_u = of_int image_width / total_width_u
                in Inr (foldl (bbox_step px_per_u) [] registry)))"

subsection \<open>The main flow\<close>

text \<open>
  The image enters through its width and through \<open>dominant_of\<close>, which stands for
  \<open>dominant_color(img.crop(bbox))\<close>: cropping, resizing and palette quantization are
  Pillow's and NumPy's, and may raise.  The base document is a dictionary of JSON values,
  of which only the colour map is looked into.
\<close>

datatype json_value = JColors "(string, string) dict" | JOther string

definition color_step ::
  "(bbox \<Rightarrow> py_error + rgb) \<Rightarrow> (string, rgb) dict \<Rightarrow> py_error + (string, string) dict
     \<Rightarrow> string \<times> bbox \<Rightarrow> py_error + (string, string) dict" where
  "color_step dominant_of palette acc item =
     (case acc of
        Inl e \<Rightarrow> Inl e
      | Inr customized_colors \<Rightarrow>
          (case dominant_of (snd item) of
             Inl e \<Rightarrow> Inl e
           | Inr dom_rgb \<Rightarrow>
               (case nearest_yuzu_color dom_rgb palette of
                  Inl e \<Rightarrow> Inl e
                | Inr yuzu_code \<Rightarrow> Inr (dict_set customized_colors (fst item) yuzu_code))))"

definition generate_design ::
  "int \<Rightarrow> (bbox \<Rightarrow> py_error + rgb) \<Rightarrow> (string, key_entry) dict \<Rightarrow> (string, rgb) dict
     \<Rightarrow> (string, json_value) dict \<Rightarrow> py_error + (string, json_value) dict" where
  "generate_design image_width dominant_of registry palette base_json =
     (case build_keyboard_bbox_map image_width registry of
        Inl e \<Rightarrow> Inl e
      | Inr bbox_map \<Rightarrow>
          (case foldl (color_step dominant_of palette) (Inr []) bbox_map of
             Inl e \<Rightarrow> Inl e
           | Inr customized_colors \<Rightarrow>
               Inr (dict_set base_json ''customizedColor'' (JColors customized_colors))))"


section \<open>GeometryNormalizer: \<open>build_key_position_registry.py\<close>\<close>

subsection \<open>\<open>float\<close> of a string\<close>

text \<open>
  \<open>float(s)\<close> strips surrounding whitespace and reads an optional sign, a decimal
  mantissa (digits with an optional point, at least one digit on one side of it) and an
  optional exponent; anything else raises \<open>ValueError\<close>.  The value is the rational
  number the literal spells: binary rounding and overflow are not modelled, nor are the
  spellings \<open>inf\<close> and \<open>nan\<close> or underscores between digits.
\<close>

definition is_space :: "char \<Rightarrow> bool" where
  "is_space c = (c \<in> set [CHR 0x09, CHR 0x0A, CHR 0x0B, CHR 0x0C, CHR 0x0D,
                           CHR 0x1C, CHR 0x1D, CHR 0x1E, CHR 0x1F, CHR 0x20])"

definition py_strip :: "string \<Rightarrow> string" where
  "py_strip s = rev (dropWhile is_space (rev (dropWhile is_space s)))"

fun split_sign :: "string \<Rightarrow> bool \<times> string" where
  "split_sign [] = (False, [])"
| "split_sign (c # cs) =
     (if c = CHR ''-'' then (True, cs) else if c = CHR ''+'' then (False, cs)
      else (False, c # cs))"

text \<open>The exponent part: empty, or \<open>e\<close> or \<open>E\<close>, an optional sign and digits.\<close>

definition float_exponent :: "string \<Rightarrow> py_error + int" where
  "float_exponent s =
     (case s of
        [] \<Rightarrow> Inr 0
      | c # cs \<Rightarrow>
          if c = CHR ''e'' \<or> c = CHR ''E''
          then (case split_sign cs of
                  (neg, ds) \<Rightarrow>
                    if ds \<noteq> [] \<and> list_all is_digit ds
                    then Inr (if neg then - int (py_int ds) else int (py_int ds))
                    else Inl ValueError)
          else Inl ValueError)"

definition py_float :: "string \<Rightarrow> py_error + rat" where
  "py_float s0 =
     (case split_sign (py_strip s0) of
        (neg, s) \<Rightarrow>
          (let ip = takeWhile is_digit s;
               r1 = dropWhile is_digit s;
               has_point = (r1 \<noteq> [] \<and> hd r1 = CHR ''.'');
               fp = (if has_point then takeWhile is_digit (tl r1) else []);
               r2 = (if has_point then dropWhile is_digit (tl r1) else r1)
           in if ip = [] \<and> fp = [] then Inl ValueError
              else (case float_exponent r2 of
                      Inl e \<Rightarrow> Inl e
                    | Inr ex \<Rightarrow>
                        (let m = of_nat (py_int (ip @ fp)) / 10 ^ length fp;
                             v = (if 0 \<le> ex then m * 10 ^ nat ex else m / 10 ^ nat (- ex))
                         in Inr (if neg then - v else v)))))"

subsection \<open>The fallback: the first match of \<open>-?\d+\.\d+|-?\d+\<close>\<close>

text \<open>
  \<open>number_at s\<close> is the match at a position where a digit stands: the whole digit run,
  and a point with the digit run after it when there is one.  \<open>first_number\<close> is the
  first item of \<open>re.findall\<close>, if the list is not empty: matching starts at the first
  digit, or at a minus sign directly before a digit.
\<close>

definition number_at :: "string \<Rightarrow> string" where
  "number_at s =
     (let ip = takeWhile is_digit s; r = dropWhile is_digit s
      in if r \<noteq> [] \<and> hd r = CHR ''.'' \<and> tl r \<noteq> [] \<and> is_digit (hd (tl r))
         then ip @ ''.'' @ takeWhile is_digit (tl r)
         else ip)"

fun first_number :: "string \<Rightarrow> string option" where
  "first_number [] = None"
| "first_number (c # cs) =
     (if is_digit c then Some (number_at (c # cs))
      else if c = CHR ''-'' \<and> cs \<noteq> [] \<and> is_digit (hd cs) then Some (c # number_at cs)
      else first_number cs)"

subsection \<open>Key elements and their position\<close>

text \<open>
  An element with a \<open>data-key-id\<close> attribute: its attributes as strings (absent ones are
  \<open>None\<close>) and its first \<open>rect\<close> descendant, if any, with that element's \<open>width\<close> and
  \<open>height\<close> attributes.
\<close>

record rect_elem =
  rect_width :: "string option"
  rect_height :: "string option"

record key_elem =
  data_key_id :: string
  data_key_x :: "string option"
  data_key_y :: "string option"
  data_key_labelid :: "string option"
  rect :: "rect_elem option"

text \<open>\<open>float(elem.get(a, 0))\<close>: an absent attribute reads as the integer 0.\<close>

definition direct_float :: "string option \<Rightarrow> py_error + rat" where
  "direct_float a = (case a of None \<Rightarrow> Inr 0 | Some s \<Rightarrow> py_float s)"

text \<open>
  \<open>float(re.findall(..., elem.get(a, "0"))[0])\<close>: indexing the empty list raises
  \<open>IndexError\<close>.
\<close>

definition extracted_float :: "string option \<Rightarrow> py_error + rat" where
  "extracted_float a =
     (case first_number (case a of None \<Rightarrow> ''0'' | Some s \<Rightarrow> s) of
        None \<Rightarrow> Inl IndexError
      | Some tok \<Rightarrow> py_float tok)"

text \<open>
  The \<open>try\<close> block reads both coordinates directly; on a \<open>ValueError\<close> from either, the
  \<open>except\<close> block reads both through the pattern.  An exception raised inside the
  \<open>except\<close> block leaves the function.
\<close>

definition fallback_position :: "key_elem \<Rightarrow> py_error + rat \<times> rat" where
  "fallback_position elem =
     (case extracted_float (data_key_x elem) of
        Inl e \<Rightarrow> Inl e
      | Inr xu \<Rightarrow>
          (case extracted_float (data_key_y elem) of
             Inl e \<Rightarrow> Inl e
           | Inr yu \<Rightarrow> Inr (xu, yu)))"

definition key_position :: "key_elem \<Rightarrow> py_error + rat \<times> rat" where
  "key_position elem =
     (case direct_float (data_key_x elem) of
        Inl e \<Rightarrow> (if e = ValueError then fallback_position elem else Inl e)
      | Inr xu \<Rightarrow>
          (case direct_float (data_key_y elem) of
             Inl e \<Rightarrow> (if e = ValueError then fallback_position elem else Inl e)
           | Inr yu \<Rightarrow> Inr (xu, yu)))"

subsection \<open>Rounding and the unit\<close>

text \<open>
  \<open>round(x, 4)\<close> rounds to the nearest multiple of \<open>0.0001\<close>, a tie going to the even
  one.  \<open>UNIT_MM\<close> is \<open>19.05\<close>.
\<close>

definition round_half_even :: "rat \<Rightarrow> int" where
  "round_half_even x =
     (let f = \<lfloor>x\<rfloor>; d = x - of_int f
      in if d < 1 / 2 then f else if 1 / 2 < d then f + 1
         else if even f then f else f + 1)"

definition py_round4 :: "rat \<Rightarrow> rat" where
  "py_round4 x = of_int (round_half_even (x * 10000)) / 10000"

definition UNIT_MM :: rat where
  "UNIT_MM = 1905 / 100"

subsection \<open>\<open>parse_key_layout\<close>\<close>

text \<open>
  First pass.  The state is the list \<open>raw\<close> and the running minima, \<open>None\<close> standing
  for the initial \<open>float("inf")\<close>.  The minima are updated before the element is looked
  at for its \<open>rect\<close>; an element without one is passed over by \<open>continue\<close>.
\<close>

type_synonym raw_key = "string \<times> rat \<times> rat \<times> rat \<times> rat \<times> string option"

text \<open>The raw coordinates of an item of \<open>raw\<close>.\<close>

definition raw_x :: "raw_key \<Rightarrow> rat" where
  "raw_x item = fst (snd item)"

definition raw_y :: "raw_key \<Rightarrow> rat" where
  "raw_y item = fst (snd (snd item))"

record gather_state =
  raw :: "raw_key list"
  min_x :: "rat option"
  min_y :: "rat option"

definition py_min :: "rat option \<Rightarrow> rat \<Rightarrow> rat option" where
  "py_min m x = (case m of None \<Rightarrow> Some x | Some y \<Rightarrow> Some (min y x))"

definition rect_size :: "rect_elem \<Rightarrow> py_error + rat \<times> rat" where
  "rect_size r =
     (case rect_width r of
        None \<Rightarrow> Inl KeyError
      | Some w \<Rightarrow>
          (case py_float w of
             Inl e \<Rightarrow> Inl e
           | Inr width_mm \<Rightarrow>
               (case rect_height r of
                  None \<Rightarrow> Inl KeyError
                | Some h \<Rightarrow>
                    (case py_float h of
                       Inl e \<Rightarrow> Inl e
                     | Inr height_mm \<Rightarrow> Inr (width_mm, height_mm)))))"

definition gather_step :: "py_error + gather_state \<Rightarrow> key_elem \<Rightarrow> py_error + gather_state" where
  "gather_step acc elem =
     (case acc of
        Inl e \<Rightarrow> Inl e
      | Inr st \<Rightarrow>
          (case key_position elem of
             Inl e \<Rightarrow> Inl e
           | Inr (xu, yu) \<Rightarrow>
               (let st' = st\<lparr>min_x := py_min (min_x st) xu, min_y := py_min (min_y st) yu\<rparr>
                in case rect elem of
                     None \<Rightarrow> Inr st'
                   | Some r \<Rightarrow>
                       (case rect_size r of
                          Inl e \<Rightarrow> Inl e
                        | Inr (width_mm, height_mm) \<Rightarrow>
                            (let wu = py_round4 (width_mm / UNIT_MM);
                                 hu = py_round4 (height_mm / UNIT_MM)
                             in Inr (st'\<lparr>raw := raw st' @
                                   [(data_key_id elem, xu, yu, wu, hu,
                                     data_key_labelid elem)]\<rparr>))))))"

definition gather :: "key_elem list \<Rightarrow> py_error + gather_state" where
  "gather elems = foldl gather_step (Inr \<lparr>raw = [], min_x = None, min_y = None\<rparr>) elems"

text \<open>Second pass, with the minima of the first.\<close>

definition registry_step ::
  "rat \<Rightarrow> rat \<Rightarrow> (string, key_entry) dict \<Rightarrow> raw_key \<Rightarrow> (string, key_entry) dict" where
  "registry_step mx my registry item =
     (case item of
        (key_id, xu, yu, wu, hu, lbl) \<Rightarrow>
          (let norm_x = xu - mx; norm_y = yu - my;
               entry = \<lparr>label = lbl, x_u = xu, y_u = yu, width_u = wu, height_u = hu,
                        left_u = py_round4 norm_x, top_u = py_round4 norm_y,
                        right_u = py_round4 (norm_x + wu),
                        bottom_u = py_round4 (norm_y + hu)\<rparr>
           in dict_set registry key_id entry))"

text \<open>
  When no element was seen the minima are still infinite, \<open>raw\<close> is empty and so is the
  registry.
\<close>

definition parse_key_layout :: "key_elem list \<Rightarrow> py_error + (string, key_entry) dict" where
  "parse_key_layout elems =
     (case gather elems of
        Inl e \<Rightarrow> Inl e
      | Inr st \<Rightarrow>
          (case (min_x st, min_y st) of
             (Some mx, Some my) \<Rightarrow> Inr (foldl (registry_step mx my) [] (raw st))
           | _ \<Rightarrow> Inr []))"



section \<open>Properties of the code normalizer\<close>

subsection \<open>Matching and formatting lemmas\<close>

lemma is_digit_not_newline: "is_digit c \<Longrightarrow> c \<noteq> CHR 0x0A"
  by (auto simp: is_digit_def)

lemma is_digit_not_I: "is_digit c \<Longrightarrow> c \<noteq> CHR ''I''"
  by (auto simp: is_digit_def)

lemma before_final_newline_digits:
  assumes "d \<noteq> []" "list_all is_digit d"
  shows "before_final_newline (p @ d) = p @ d"
proof -
  have "is_digit (last d)" using assms by (simp add: list_all_iff)
  then have "last (p @ d) \<noteq> CHR 0x0A" using assms(1) by (simp add: is_digit_not_newline)
  then show ?thesis by (simp add: before_final_newline_def)
qed

lemma CODE_RE_shape:
  assumes "length p = 2" "list_all is_upper p" "d \<noteq> []" "list_all is_digit d"
  shows "CODE_RE (p @ d) = Some (p, d)"
  using assms by (simp add: CODE_RE_def before_final_newline_digits)

lemma I_MIS_OCR_RE_shape:
  assumes "length p = 2" "d \<noteq> []" "list_all is_digit d"
  shows "I_MIS_OCR_RE (p @ d) = None"
proof -
  obtain c d' where d: "d = c # d'" using assms(2) by (cases d) auto
  then have "c \<noteq> CHR ''I''" using assms(3) by (simp add: is_digit_not_I)
  then show ?thesis using assms d
    by (simp add: I_MIS_OCR_RE_def before_final_newline_digits)
qed

lemma CODE_RE_SomeD:
  assumes "CODE_RE c = Some (p, d)"
  shows "length p = 2 \<and> list_all is_upper p \<and> d \<noteq> [] \<and> list_all is_digit d
         \<and> before_final_newline c = p @ d"
  using assms by (auto simp: CODE_RE_def Let_def split: if_splits)

lemma I_MIS_OCR_RE_SomeD:
  assumes "I_MIS_OCR_RE c = Some (p, d)"
  shows "length p = 2 \<and> list_all is_upper p \<and> d \<noteq> [] \<and> list_all is_digit d"
  using assms by (auto simp: I_MIS_OCR_RE_def Let_def split: if_splits)

lemma normalize_code_fixed:
  assumes "length p = 2" "list_all is_upper p" "list_all is_digit d" "3 \<le> length d"
  shows "normalize_code (p @ d) = p @ d"
proof -
  have ne: "d \<noteq> []" using assms(4) by auto
  show ?thesis
    using assms ne by (simp add: normalize_code_def I_MIS_OCR_RE_shape CODE_RE_shape)
qed

lemma digit_char_is_digit: "d < 10 \<Longrightarrow> is_digit (digit_char d)"
proof -
  assume "d < 10"
  then have "d \<in> {0,1,2,3,4,5,6,7,8,9}" by auto
  then show ?thesis by (auto simp: is_digit_def digit_char_def)
qed

lemma show_nat_digits: "list_all is_digit (show_nat n)"
proof (induction n rule: show_nat.induct)
  case (1 n)
  show ?case
  proof (cases "n < 10")
    case True
    then show ?thesis by (subst show_nat.simps) (simp add: digit_char_is_digit)
  next
    case False
    then show ?thesis using 1 by (subst show_nat.simps) (simp add: digit_char_is_digit)
  qed
qed

lemma is_digit_zero: "is_digit (CHR ''0'')"
  by (simp add: is_digit_def)

lemma format_03d_digits: "list_all is_digit (format_03d n)"
proof -
  have "list_all is_digit (replicate k (CHR ''0''))" for k
    by (induction k) (simp_all add: is_digit_zero)
  then show ?thesis by (simp add: format_03d_def Let_def show_nat_digits)
qed

lemma format_03d_length: "3 \<le> length (format_03d n)"
  by (simp add: format_03d_def Let_def)

subsection \<open>\<open>:03d\<close> of a short digit run is left-padding with zeros\<close>

lemma replicate_2: "replicate 2 c = [c, c]"
  by (simp add: numeral_2_eq_2)

lemma replicate_3: "replicate 3 c = [c, c, c]"
  by (simp add: numeral_3_eq_3)

lemma digit_val_cases:
  assumes "is_digit a"
  shows "digit_val a < 10 \<and> digit_char (digit_val a) = a"
  using assms by (auto simp: is_digit_def digit_val_def digit_char_def)

lemma digit_val_zero:
  assumes "is_digit a" "digit_val a = 0"
  shows "a = CHR ''0''"
  using assms by (auto simp: is_digit_def digit_val_def)

lemma show_nat_small: "n < 10 \<Longrightarrow> show_nat n = [digit_char n]"
  by (subst show_nat.simps) simp

lemma show_nat_two:
  assumes "0 < x" "x < 10" "y < 10"
  shows "show_nat (10 * x + y) = [digit_char x, digit_char y]"
proof -
  have "\<not> 10 * x + y < 10" using assms by simp
  moreover have "(10 * x + y) div 10 = x" "(10 * x + y) mod 10 = y" using assms by simp_all
  ultimately show ?thesis using assms
    by (subst show_nat.simps) (simp add: show_nat_small)
qed


lemma py_int_one: "py_int [a] = digit_val a"
  by (simp add: py_int_def)

lemma py_int_two: "py_int [a, b] = 10 * digit_val a + digit_val b"
  by (simp add: py_int_def)

lemma format_03d_one_digit:
  assumes "is_digit a"
  shows "format_03d (py_int [a]) = [CHR ''0'', CHR ''0'', a]"
  using digit_val_cases [OF assms]
  by (simp add: format_03d_def py_int_one show_nat_small replicate_2)

lemma format_03d_two_digits:
  assumes "is_digit a" "is_digit b"
  shows "format_03d (py_int [a, b]) = [CHR ''0'', a, b]"
proof (cases "digit_val a = 0")
  case True
  then have "a = CHR ''0''" using assms(1) by (rule digit_val_zero [rotated])
  then show ?thesis using True digit_val_cases [OF assms(2)]
    by (simp add: format_03d_def py_int_two show_nat_small replicate_2)
next
  case False
  then show ?thesis using digit_val_cases [OF assms(1)] digit_val_cases [OF assms(2)]
    by (simp add: format_03d_def py_int_two show_nat_two)
qed

lemma format_03d_pads:
  assumes "list_all is_digit ds" "ds \<noteq> []" "length ds < 3"
  shows "format_03d (py_int ds) = replicate (3 - length ds) (CHR ''0'') @ ds"
proof -
  consider a where "ds = [a]" | a b where "ds = [a, b]"
    using assms(2,3) by (cases ds; cases "tl ds"; cases "tl (tl ds)") auto
  then show ?thesis
  proof cases
    case 1
    then show ?thesis using assms(1) by (simp add: format_03d_one_digit replicate_2)
  next
    case 2
    then show ?thesis using assms(1) by (simp add: format_03d_two_digits)
  qed
qed

subsection \<open>Idempotence\<close>

text \<open>
  Claim C2.  Code normalization is idempotent: for every string \<open>s\<close>, normalizing
  the normalized code gives the normalized code again.
\<close>

theorem normalize_code_idempotent: "normalize_code (normalize_code s) = normalize_code s"
proof (cases "I_MIS_OCR_RE s")
  case None
  show ?thesis
  proof (cases "CODE_RE s")
    case N2: None
    then show ?thesis using None by (simp add: normalize_code_def)
  next
    case (Some pd)
    obtain p d where pd: "pd = (p, d)" by (cases pd)
    note facts = CODE_RE_SomeD [OF Some [unfolded pd]]
    show ?thesis
    proof (cases "3 \<le> length d")
      case True
      then show ?thesis using None Some pd by (simp add: normalize_code_def)
    next
      case False
      then have "normalize_code s = p @ format_03d (py_int d)"
        using None Some pd by (simp add: normalize_code_def)
      then show ?thesis
        using facts by (simp add: normalize_code_fixed format_03d_digits format_03d_length)
    qed
  qed
next
  case (Some pd)
  obtain p d where pd: "pd = (p, d)" by (cases pd)
  note facts = I_MIS_OCR_RE_SomeD [OF Some [unfolded pd]]
  let ?d = "CHR ''1'' # d"
  have d1: "list_all is_digit ?d" using facts by (simp add: is_digit_def)
  have code: "CODE_RE (p @ ?d) = Some (p, ?d)"
    using facts d1 by (intro CODE_RE_shape) simp_all
  show ?thesis
  proof (cases "3 \<le> length ?d")
    case True
    then have "normalize_code s = p @ ?d"
      using Some pd code by (simp add: normalize_code_def)
    then show ?thesis using facts d1 True by (simp only: normalize_code_fixed)
  next
    case False
    then have "normalize_code s = p @ format_03d (py_int ?d)"
      using Some pd code by (simp add: normalize_code_def)
    then show ?thesis
      using facts by (simp add: normalize_code_fixed format_03d_digits format_03d_length)
  qed
qed

subsection \<open>Padding\<close>

lemma is_digit_not_upper: "is_digit c \<Longrightarrow> \<not> is_upper c"
  by (auto simp: is_digit_def is_upper_def)

lemma one_letter_no_match:
  assumes "length p = 1" "ds \<noteq> []" "list_all is_digit ds"
  shows "CODE_RE (p @ ds) = None" and "I_MIS_OCR_RE (p @ ds) = None"
proof -
  obtain a where p: "p = [a]" using assms(1) by (cases p) auto
  obtain d ds' where ds: "ds = d # ds'" using assms(2) by (cases ds) auto
  have nu: "\<not> is_upper d" using assms(3) ds by (simp add: is_digit_not_upper)
  have bfn: "before_final_newline (p @ ds) = p @ ds"
    using assms(2,3) by (rule before_final_newline_digits)
  show "CODE_RE (p @ ds) = None"
    unfolding CODE_RE_def bfn using nu by (simp add: p ds)
  show "I_MIS_OCR_RE (p @ ds) = None"
    unfolding I_MIS_OCR_RE_def bfn using nu by (simp add: p ds)
qed

lemma three_letters:
  assumes "length p = 3"
  obtains a b c where "p = [a, b, c]"
  using assms by (cases p; cases "tl p"; cases "tl (tl p)") auto

lemma three_letters_match:
  assumes "length p = 3" "list_all is_upper p" "ds \<noteq> []" "list_all is_digit ds"
  shows "CODE_RE (p @ ds) = None"
    and "I_MIS_OCR_RE (p @ ds) = (if p ! 2 = CHR ''I'' then Some (take 2 p, ds) else None)"
proof -
  obtain a b c where p: "p = [a, b, c]" using assms(1) by (rule three_letters)
  have nd: "\<not> is_digit c" using assms(2) p is_digit_not_upper by auto
  have bfn: "before_final_newline (p @ ds) = p @ ds"
    using assms(3,4) by (rule before_final_newline_digits)
  show "CODE_RE (p @ ds) = None"
    unfolding CODE_RE_def bfn using nd by (simp add: p)
  show "I_MIS_OCR_RE (p @ ds) = (if p ! 2 = CHR ''I'' then Some (take 2 p, ds) else None)"
    unfolding I_MIS_OCR_RE_def bfn using assms(2,3,4) by (simp add: p)
qed

lemma normalize_code_two_letters:
  assumes "length p = 2" "list_all is_upper p" "ds \<noteq> []" "list_all is_digit ds"
  shows "normalize_code (p @ ds) = p @ replicate (3 - length ds) (CHR ''0'') @ ds"
  using assms
  by (simp add: normalize_code_def I_MIS_OCR_RE_shape CODE_RE_shape format_03d_pads)

text \<open>
  Claim C7 (as amended).  For every code made of exactly two capital letters followed by
  one or more digits, \<open>normalize_code\<close> left-pads the digit run with zeros to three
  digits, and leaves a run of three or more digits as it is.  The padding does not apply
  to other prefix lengths: a code with a one-letter prefix is returned unchanged, and so
  is a code with a three-letter prefix unless its third letter is \<open>I\<close>; in that case
  the first pattern reads the \<open>I\<close> as the digit \<open>1\<close> of a two-letter code, which is
  then padded.
\<close>

theorem normalize_code_padding:
  assumes "list_all is_upper p" "ds \<noteq> []" "list_all is_digit ds"
  shows "(length p = 2 \<longrightarrow>
            normalize_code (p @ ds) = p @ replicate (3 - length ds) (CHR ''0'') @ ds)
       \<and> (length p = 2 \<and> 3 \<le> length ds \<longrightarrow> normalize_code (p @ ds) = p @ ds)
       \<and> (length p = 1 \<longrightarrow> normalize_code (p @ ds) = p @ ds)
       \<and> (length p = 3 \<and> p ! 2 \<noteq> CHR ''I'' \<longrightarrow> normalize_code (p @ ds) = p @ ds)
       \<and> (length p = 3 \<and> p ! 2 = CHR ''I'' \<longrightarrow>
            normalize_code (p @ ds) =
              take 2 p @ replicate (2 - length ds) (CHR ''0'') @ CHR ''1'' # ds)"
proof (intro conjI impI)
  assume "length p = 2"
  then show "normalize_code (p @ ds) = p @ replicate (3 - length ds) (CHR ''0'') @ ds"
    using assms by (rule normalize_code_two_letters)
next
  assume "length p = 2 \<and> 3 \<le> length ds"
  then show "normalize_code (p @ ds) = p @ ds"
    using assms by (simp add: normalize_code_two_letters)
next
  assume "length p = 1"
  then show "normalize_code (p @ ds) = p @ ds"
    using assms by (simp add: normalize_code_def one_letter_no_match)
next
  assume "length p = 3 \<and> p ! 2 \<noteq> CHR ''I''"
  then show "normalize_code (p @ ds) = p @ ds"
    using assms by (simp add: normalize_code_def three_letters_match)
next
  assume a: "length p = 3 \<and> p ! 2 = CHR ''I''"
  have one: "list_all is_digit (CHR ''1'' # ds)" using assms(3) by (simp add: is_digit_def)
  have up: "list_all is_upper (take 2 p)"
    using assms(1) by (auto simp: list_all_iff dest: in_set_takeD)
  have len: "length (take 2 p) = 2" using a by simp
  have "normalize_code (take 2 p @ (CHR ''1'' # ds)) =
          take 2 p @ replicate (3 - length (CHR ''1'' # ds)) (CHR ''0'') @ (CHR ''1'' # ds)"
    using len up _ one by (rule normalize_code_two_letters) simp
  moreover have "normalize_code (p @ ds) = normalize_code (take 2 p @ (CHR ''1'' # ds))"
  proof -
    have i: "I_MIS_OCR_RE (p @ ds) = Some (take 2 p, ds)"
      using a assms by (simp add: three_letters_match)
    have n: "I_MIS_OCR_RE (take 2 p @ (CHR ''1'' # ds)) = None"
      using len _ one by (rule I_MIS_OCR_RE_shape) simp
    show ?thesis by (simp add: normalize_code_def i n)
  qed
  ultimately show "normalize_code (p @ ds) =
      take 2 p @ replicate (2 - length ds) (CHR ''0'') @ CHR ''1'' # ds"
    by simp
qed

text \<open>
  The claim as written also promises the padding for one-letter and three-letter
  prefixes; \<open>CODE_RE\<close> asks for exactly two letters, so such codes come back unpadded.
\<close>

theorem normalize_code_padding_counterexample:
  "normalize_code ''A5'' = ''A5'' \<and> normalize_code ''ABC5'' = ''ABC5''"
  by code_simp

theorem normalize_code_padding_witness:
  "list_all is_upper ''GR'' \<and> list_all is_digit ''27''
   \<and> normalize_code ''GR27'' = ''GR027''
   \<and> normalize_code ''GR1234'' = ''GR1234''
   \<and> normalize_code ''G7'' = ''G7''
   \<and> normalize_code ''GRX7'' = ''GRX7''
   \<and> normalize_code ''GRI7'' = ''GR017''"
proof -
  have u1: "list_all is_upper ''G''" and u2: "list_all is_upper ''GR''"
    and u3: "list_all is_upper ''GRX''" and u4: "list_all is_upper ''GRI''"
    by (simp_all add: is_upper_def)
  have d1: "list_all is_digit ''7''" and d2: "list_all is_digit ''27''"
    and d4: "list_all is_digit ''1234''"
    by (simp_all add: is_digit_def)
  have "normalize_code ''GR27'' = ''GR027''"
    using normalize_code_padding [OF u2 _ d2] by (simp add: replicate_2)
  moreover have "normalize_code ''GR1234'' = ''GR1234''"
    using normalize_code_padding [OF u2 _ d4] by simp
  moreover have "normalize_code ''G7'' = ''G7''"
    using normalize_code_padding [OF u1 _ d1] by simp
  moreover have "normalize_code ''GRX7'' = ''GRX7''"
    using normalize_code_padding [OF u3 _ d1] by simp
  moreover have "normalize_code ''GRI7'' = ''GR017''"
    using normalize_code_padding [OF u4 _ d1] by simp
  ultimately show ?thesis using u2 d2 by simp
qed

subsection \<open>The renaming loop\<close>

lemma dict_set_fresh: "k \<notin> set (map fst d) \<Longrightarrow> dict_set d k v = d @ [(k, v)]"
  by (induction d) auto

lemma set_dict_set_subset: "set (dict_set d k v) \<subseteq> insert (k, v) (set d)"
  by (induction d) (auto split: if_splits)

lemma keys_dict_set: "fst ` set (dict_set d k v) = insert k (fst ` set d)"
proof (induction d)
  case Nil
  show ?case by simp
next
  case (Cons a d)
  obtain k' v' where a: "a = (k', v')" by (cases a)
  show ?case using Cons by (cases "k' = k") (simp_all add: a insert_commute)
qed

lemma fix_loop_Nil: "fix_loop [] = fix_init"
  by (simp add: fix_loop_def)

lemma fix_loop_snoc: "fix_loop (reg @ [x]) = fix_step (fix_loop reg) x"
  by (simp add: fix_loop_def)

lemma fix_step_remapped:
  "remapped (fix_step st (c, e)) =
     (if normalize_code c \<in> set (map fst (remapped st)) then remapped st
      else remapped st @ [(normalize_code c, e)])"
  by (simp add: fix_step_def Let_def dict_in_def dict_set_fresh)

lemma fix_step_warnings:
  "warnings (fix_step st (c, e)) =
     (if normalize_code c \<in> set (map fst (remapped st))
      then warnings st @ [(c, normalize_code c)] else warnings st)"
  by (simp add: fix_step_def Let_def dict_in_def)

lemma fix_loop_keys:
  "set (map fst (remapped (fix_loop reg))) = normalize_code ` fst ` set reg"
proof (induction reg rule: rev_induct)
  case Nil
  show ?case by (simp add: fix_loop_Nil fix_init_def)
next
  case (snoc x reg)
  obtain c e where x: "x = (c, e)" by (cases x)
  show ?case using snoc by (auto simp: fix_loop_snoc x fix_step_remapped)
qed

lemma fix_loop_distinct: "distinct (map fst (remapped (fix_loop reg)))"
proof (induction reg rule: rev_induct)
  case Nil
  show ?case by (simp add: fix_loop_Nil fix_init_def)
next
  case (snoc x reg)
  obtain c e where x: "x = (c, e)" by (cases x)
  show ?case using snoc by (simp add: fix_loop_snoc x fix_step_remapped)
qed

lemma fix_loop_first_wins:
  "map_of (remapped (fix_loop reg)) = map_of (map (\<lambda>(c, e). (normalize_code c, e)) reg)"
proof (induction reg rule: rev_induct)
  case Nil
  show ?case by (simp add: fix_loop_Nil fix_init_def)
next
  case (snoc x reg)
  obtain c e where x: "x = (c, e)" by (cases x)
  let ?m = "map_of (remapped (fix_loop reg))"
  have dom: "dom ?m = set (map fst (remapped (fix_loop reg)))"
    by (simp add: dom_map_of_conv_image_fst)
  show ?case
  proof (cases "normalize_code c \<in> set (map fst (remapped (fix_loop reg)))")
    case True
    then obtain v where v: "?m (normalize_code c) = Some v" using dom by auto
    have "[normalize_code c \<mapsto> e] ++ ?m = ?m"
      by (rule ext) (simp add: map_add_def v split: option.splits)
    then show ?thesis using True snoc by (simp add: fix_loop_snoc x fix_step_remapped)
  next
    case False
    then show ?thesis using snoc by (simp add: fix_loop_snoc x fix_step_remapped)
  qed
qed

lemma dropped_positions_snoc:
  "dropped_positions (reg @ [x]) =
     dropped_positions reg @
       (if normalize_code (fst x) \<in> normalize_code ` fst ` set reg then [length reg] else [])"
proof -
  have "filter (\<lambda>i. normalize_code (fst ((reg @ [x]) ! i))
                     \<in> normalize_code ` fst ` set (take i (reg @ [x]))) [0..<length reg]
        = dropped_positions reg"
    unfolding dropped_positions_def
    by (rule filter_cong) (simp_all add: nth_append)
  then show ?thesis by (simp add: dropped_positions_def)
qed

lemma fix_loop_warnings:
  "warnings (fix_loop reg) =
     map (\<lambda>i. (fst (reg ! i), normalize_code (fst (reg ! i)))) (dropped_positions reg)"
proof (induction reg rule: rev_induct)
  case Nil
  show ?case by (simp add: fix_loop_Nil fix_init_def dropped_positions_def)
next
  case (snoc x reg)
  obtain c e where x: "x = (c, e)" by (cases x)
  have lt: "\<forall>i \<in> set (dropped_positions reg). i < length reg"
    by (simp add: dropped_positions_def)
  have "map (\<lambda>i. (fst ((reg @ [x]) ! i), normalize_code (fst ((reg @ [x]) ! i))))
          (dropped_positions reg)
        = map (\<lambda>i. (fst (reg ! i), normalize_code (fst (reg ! i)))) (dropped_positions reg)"
    using lt by (intro map_cong) (simp_all add: nth_append)
  then show ?case
    using snoc
    by (simp add: fix_loop_snoc x fix_step_warnings fix_loop_keys [simplified]
        dropped_positions_snoc)
qed

lemma fix_loop_values:
  "set (remapped (fix_loop reg)) \<subseteq> (\<lambda>(c, e). (normalize_code c, e)) ` set reg"
proof (induction reg rule: rev_induct)
  case Nil
  show ?case by (simp add: fix_loop_Nil fix_init_def)
next
  case (snoc x reg)
  obtain c e where x: "x = (c, e)" by (cases x)
  show ?case using snoc by (auto simp: fix_loop_snoc x fix_step_remapped)
qed

lemma fix_registry_remapped: "remapped (fix_registry reg) = remapped (fix_loop reg)"
  by (simp add: fix_registry_def Let_def)

lemma fix_registry_warnings: "warnings (fix_registry reg) = warnings (fix_loop reg)"
  by (simp add: fix_registry_def Let_def)

text \<open>
  Claim C5.  When a whole registry is normalized and several raw codes normalize to the
  same canonical code, only the first of them in iteration order is kept, with its own
  entry as the value, and each later one is dropped with a duplicate warning naming its
  raw and its normalized code.  The result has no duplicate key; looking a canonical code
  up in it gives the entry of the first raw code that normalizes to it (\<open>map_of\<close> takes
  the first match); the warnings are exactly those of the positions whose normalized code
  was seen before.  For the raw codes \<open>GR27\<close>, \<open>GR027\<close> in this order the result is
  the single entry \<open>GR027\<close> holding the first entry's value, and one warning.
\<close>

theorem fix_registry_keeps_first:
  "distinct (map fst (remapped (fix_registry reg)))
   \<and> map_of (remapped (fix_registry reg)) =
       map_of (map (\<lambda>(c, e). (normalize_code c, e)) reg)
   \<and> warnings (fix_registry reg) =
       map (\<lambda>i. (fst (reg ! i), normalize_code (fst (reg ! i))))
         (filter (\<lambda>i. normalize_code (fst (reg ! i))
                        \<in> normalize_code ` fst ` set (take i reg))
            [0..<length reg])
   \<and> remapped (fix_registry [(''GR27'', e1), (''GR027'', e2)]) = [(''GR027'', e1)]
   \<and> warnings (fix_registry [(''GR27'', e1), (''GR027'', e2)]) = [(''GR027'', ''GR027'')]"
proof -
  have n1: "normalize_code ''GR27'' = ''GR027''" by code_simp
  have n2: "normalize_code ''GR027'' = ''GR027''" by code_simp
  have "remapped (fix_registry [(''GR27'', e1), (''GR027'', e2)]) = [(''GR027'', e1)]"
    by (simp add: fix_registry_def fix_loop_def fix_step_def fix_init_def dict_in_def Let_def
        n1 n2)
  moreover
  have "warnings (fix_registry [(''GR27'', e1), (''GR027'', e2)]) = [(''GR027'', ''GR027'')]"
    by (simp add: fix_registry_def fix_loop_def fix_step_def fix_init_def dict_in_def Let_def
        n1 n2)
  ultimately show ?thesis
    by (simp only: fix_registry_remapped fix_registry_warnings fix_loop_distinct
        fix_loop_first_wins fix_loop_warnings dropped_positions_def simp_thms)
qed

theorem fix_registry_keeps_first_witness:
  "fix_registry [(''GR27'', \<lparr>entry_file = ''keycaps/GR27.jpg'', entry_rgb = [10, 200, 30]\<rparr>),
                 (''GR027'', \<lparr>entry_file = ''keycaps/GR027.jpg'', entry_rgb = [11, 201, 31]\<rparr>)]
   = \<lparr>remapped =
        [(''GR027'', \<lparr>entry_file = ''keycaps/GR27.jpg'', entry_rgb = [10, 200, 30]\<rparr>)],
      changed = [(''GR27'', ''GR027'')],
      warnings = [(''GR027'', ''GR027'')]\<rparr>"
proof -
  let ?e1 = "\<lparr>entry_file = ''keycaps/GR27.jpg'', entry_rgb = [10, 200, 30 :: int]\<rparr>"
  let ?e2 = "\<lparr>entry_file = ''keycaps/GR027.jpg'', entry_rgb = [11, 201, 31 :: int]\<rparr>"
  let ?r = "fix_registry [(''GR27'', ?e1), (''GR027'', ?e2)]"
  have n1: "normalize_code ''GR27'' = ''GR027''" by code_simp
  have n2: "normalize_code ''GR027'' = ''GR027''" by code_simp
  have c: "changed ?r = [(''GR27'', ''GR027'')]"
    by (simp add: fix_registry_def fix_loop_def fix_step_def fix_init_def dict_in_def Let_def
        n1 n2)
  have "remapped ?r = [(''GR027'', ?e1)]" and "warnings ?r = [(''GR027'', ''GR027'')]"
    using fix_registry_keeps_first [of "[] :: (string, color_entry) dict" ?e1 ?e2]
    by blast+
  then show ?thesis using c by (cases ?r) simp
qed

text \<open>
  Claim C10.  The renaming never alters an entry: every item of the output registry is
  the value of some input item, unchanged, under the normalized code of that item's key.
  In particular every output value is the value of some input entry.
\<close>

theorem fix_registry_values_unchanged:
  "set (remapped (fix_registry reg)) \<subseteq> (\<lambda>(c, e). (normalize_code c, e)) ` set reg
   \<and> set (map snd (remapped (fix_registry reg))) \<subseteq> set (map snd reg)"
proof -
  have a: "set (remapped (fix_registry reg)) \<subseteq> (\<lambda>(c, e). (normalize_code c, e)) ` set reg"
    by (simp only: fix_registry_remapped fix_loop_values)
  then have "snd ` set (remapped (fix_registry reg)) \<subseteq> snd ` set reg"
    by force
  then show ?thesis using a by simp
qed

section \<open>Properties of the sampler region and of the inverse index\<close>

text \<open>
  Claim C8.  For every image of width and height at least 1, the box cropped by
  \<open>sample_color\<close> lies inside the image and is not empty:
  \<open>0 \<le> left < right \<le> width\<close> and \<open>0 \<le> top < bottom \<le> height\<close>.
\<close>

theorem sample_color_region_inside:
  assumes "1 \<le> width" "1 \<le> height"
    and "sample_color_region width height = (l, t, r, b)"
  shows "0 \<le> l \<and> l < r \<and> r \<le> width \<and> 0 \<le> t \<and> t < b \<and> b \<le> height"
  using assms by (auto simp: sample_color_region_def Let_def)

theorem sample_color_region_inside_witness:
  "sample_color_region 1 1 = (0, 0, 1, 1)
   \<and> sample_color_region 300 100 = (70, 25, 170, 80)
   \<and> sample_color_region 100 40 = (70, 25, 100, 40)"
proof -
  have a: "sample_color_region 1 1 = (0, 0, 1, 1)"
    and b: "sample_color_region 300 100 = (70, 25, 170, 80)"
    and c: "sample_color_region 100 40 = (70, 25, 100, 40)"
    by (simp_all add: sample_color_region_def)
  have "(0::int) \<le> 0 \<and> (0::int) < 1 \<and> (1::int) \<le> 1"
    using sample_color_region_inside [OF _ _ a] by simp
  then show ?thesis using a b c by simp
qed

subsection \<open>Keys of the inverse index\<close>

lemma hex_nat_small: "n < 16 \<Longrightarrow> hex_nat n = [hex_char n]"
  by (subst hex_nat.simps) simp

lemma hex_nat_byte:
  assumes "16 \<le> n" "n < 256"
  shows "hex_nat n = [hex_char (n div 16), hex_char (n mod 16)]"
proof -
  have "n div 16 < 16" using assms by simp
  then show ?thesis using assms by (subst hex_nat.simps) (simp add: hex_nat_small)
qed

lemma hex_char_zero: "hex_char 0 = CHR ''0''"
  by (simp add: hex_char_def)

lemma format_02x_byte:
  assumes "0 \<le> n" "n < 256"
  shows "format_02x n = [hex_char (nat n div 16), hex_char (nat n mod 16)]"
proof (cases "n < 16")
  case True
  then have "nat n < 16" "nat n div 16 = 0" using assms by auto
  then show ?thesis using assms
    by (simp add: format_02x_def hex_nat_small hex_char_zero)
next
  case False
  then have "16 \<le> nat n" "nat n < 256" using assms by auto
  then show ?thesis using assms by (simp add: format_02x_def hex_nat_byte)
qed

lemma rgb_to_hex_bytes:
  assumes "0 \<le> r" "r < 256" "0 \<le> g" "g < 256" "0 \<le> b" "b < 256"
  shows "rgb_to_hex [r, g, b] =
           Inr [CHR ''#'', hex_char (nat r div 16), hex_char (nat r mod 16),
                hex_char (nat g div 16), hex_char (nat g mod 16),
                hex_char (nat b div 16), hex_char (nat b mod 16)]"
  using assms by (simp add: format_02x_byte)

lemma rgb_to_hex_hash: "rgb_to_hex rgb = Inr k \<Longrightarrow> \<exists>s. k = CHR ''#'' # s"
  by (cases rgb rule: rgb_to_hex.cases) auto

lemma create_hex_snoc:
  "create_hex_color_registry (reg @ [x]) = hex_step (create_hex_color_registry reg) x"
  by (simp add: create_hex_color_registry_def)

lemma create_hex_color_registry_keys:
  "create_hex_color_registry reg = Inr h \<Longrightarrow> k \<in> set (map fst h) \<Longrightarrow> \<exists>s. k = CHR ''#'' # s"
proof (induction reg arbitrary: h k rule: rev_induct)
  case Nil
  then show ?case by (simp add: create_hex_color_registry_def)
next
  case (snoc x reg)
  from snoc.prems(1) obtain h0 where h0: "create_hex_color_registry reg = Inr h0"
    by (cases "create_hex_color_registry reg") (simp_all add: create_hex_snoc hex_step_def)
  show ?case
  proof (cases "length (entry_rgb (snd x)) = 3")
    case False
    then have "h = h0" using snoc.prems(1) h0 by (simp add: create_hex_snoc hex_step_def)
    then show ?thesis using snoc.IH [OF h0] snoc.prems(2) by simp
  next
    case True
    then obtain hc where hc: "rgb_to_hex (entry_rgb (snd x)) = Inr hc"
      and h: "h = dict_set h0 hc (fst x)"
      using snoc.prems(1) h0
      by (cases "rgb_to_hex (entry_rgb (snd x))") (simp_all add: create_hex_snoc hex_step_def)
    have "k = hc \<or> k \<in> set (map fst h0)"
      using snoc.prems(2) h keys_dict_set [of h0 hc "fst x"] by auto
    then show ?thesis using rgb_to_hex_hash [OF hc] snoc.IH [OF h0] by blast
  qed
qed

text \<open>
  Claim C9.  The claim asks that every stored key be the six lowercase hexadecimal digits
  of the entry's RGB triple, with no leading \<open>#\<close>, and the docstring of \<open>rgb_to_hex\<close>
  promises a hex string ``without # prefix''.  The format string of \<open>rgb_to_hex\<close>
  starts with \<open>#\<close>, so every stored key carries it (\<open>create_hex_color_registry_keys\<close>);
  for the registry of one entry with RGB \<open>[255, 0, 16]\<close> the stored key is
  \<open>#ff0010\<close>, seven characters, not \<open>ff0010\<close>.
\<close>

theorem create_hex_color_registry_hash_key:
  "create_hex_color_registry
     [(''GR027'', \<lparr>entry_file = ''yuzu/keycaps/GR027.jpg'', entry_rgb = [255, 0, 16]\<rparr>)]
   = Inr [(''#ff0010'', ''GR027'')]"
  by code_simp

section \<open>Properties of the nearest-colour lookup\<close>

lemma nearest_step_first:
  "nearest_step rgb (None, None) x = (Some (fst x), Some (rgb_distance rgb (snd x)))"
  by (simp add: nearest_step_def)

lemma nearest_step_Some:
  "nearest_step rgb (Some c, Some d) x =
     (if rgb_distance rgb (snd x) < d then (Some (fst x), Some (rgb_distance rgb (snd x)))
      else (Some c, Some d))"
  by (simp add: nearest_step_def)

lemma nearest_fold_first_minimum:
  assumes "xs \<noteq> []"
  shows "\<exists>i<length xs.
           foldl (nearest_step rgb) (None, None) xs
             = (Some (fst (xs ! i)), Some (rgb_distance rgb (snd (xs ! i))))
         \<and> (\<forall>j<length xs. rgb_distance rgb (snd (xs ! i)) \<le> rgb_distance rgb (snd (xs ! j)))
         \<and> (\<forall>j<i. rgb_distance rgb (snd (xs ! i)) < rgb_distance rgb (snd (xs ! j)))"
  using assms
proof (induction xs rule: rev_induct)
  case Nil
  then show ?case by simp
next
  case (snoc x xs)
  let ?D = "\<lambda>e. rgb_distance rgb (snd e)"
  show ?case
  proof (cases "xs = []")
    case True
    then show ?thesis by (simp add: nearest_step_first)
  next
    case False
    from snoc.IH [OF False] obtain i where i: "i < length xs"
      and st: "foldl (nearest_step rgb) (None, None) xs = (Some (fst (xs ! i)), Some (?D (xs ! i)))"
      and mn: "\<forall>j<length xs. ?D (xs ! i) \<le> ?D (xs ! j)"
      and fs: "\<forall>j<i. ?D (xs ! i) < ?D (xs ! j)"
      by blast
    show ?thesis
    proof (cases "?D x < ?D (xs ! i)")
      case True
      have "foldl (nearest_step rgb) (None, None) (xs @ [x]) = (Some (fst x), Some (?D x))"
        using True by (simp add: st nearest_step_Some)
      moreover have "\<forall>j<length (xs @ [x]). ?D x \<le> ?D ((xs @ [x]) ! j)"
      proof (intro allI impI)
        fix j assume "j < length (xs @ [x])"
        then consider "j < length xs" | "j = length xs" by fastforce
        then show "?D x \<le> ?D ((xs @ [x]) ! j)"
        proof cases
          case 1
          then show ?thesis using True mn by (fastforce simp: nth_append)
        next
          case 2
          then show ?thesis by simp
        qed
      qed
      moreover have "\<forall>j<length xs. ?D x < ?D ((xs @ [x]) ! j)"
        using True mn by (fastforce simp: nth_append)
      ultimately show ?thesis
        by (intro exI [of _ "length xs"]) simp
    next
      case False
      have "foldl (nearest_step rgb) (None, None) (xs @ [x])
              = (Some (fst (xs ! i)), Some (?D (xs ! i)))"
        using False by (simp add: st nearest_step_Some)
      moreover have "\<forall>j<length (xs @ [x]). ?D (xs ! i) \<le> ?D ((xs @ [x]) ! j)"
      proof (intro allI impI)
        fix j assume "j < length (xs @ [x])"
        then consider "j < length xs" | "j = length xs" by fastforce
        then show "?D (xs ! i) \<le> ?D ((xs @ [x]) ! j)"
        proof cases
          case 1
          then show ?thesis using mn by (simp add: nth_append)
        next
          case 2
          then show ?thesis using False by simp
        qed
      qed
      moreover have "\<forall>j<i. ?D (xs ! i) < ?D ((xs @ [x]) ! j)"
        using fs i by (simp add: nth_append)
      ultimately show ?thesis
        using i by (intro exI [of _ i]) (simp add: nth_append)
    qed
  qed
qed

text \<open>
  Claim C3 (as amended).  On a non-empty palette \<open>nearest_yuzu_color\<close> returns the code
  of an entry whose RGB has minimum Euclidean distance to the query, and among several
  entries at that distance the first one in the palette's iteration order (every earlier
  entry is strictly farther).  When the palette is iterated in sorted code order this is
  the least code among the nearest entries.  For the palette \<open>A001: [0,0,0]\<close>,
  \<open>A002: [10,10,10]\<close>, in this order, and the query \<open>[5,5,5]\<close> the result is
  \<open>A001\<close>.
\<close>

theorem nearest_yuzu_color_first_minimum:
  assumes "palette \<noteq> []"
  shows "(\<exists>i<length palette.
            nearest_yuzu_color rgb palette = Inr (fst (palette ! i))
          \<and> (\<forall>j<length palette.
                rgb_distance rgb (snd (palette ! i)) \<le> rgb_distance rgb (snd (palette ! j)))
          \<and> (\<forall>j<i. rgb_distance rgb (snd (palette ! i)) < rgb_distance rgb (snd (palette ! j)))
          \<and> (sorted (map fst palette) \<longrightarrow>
               (\<forall>j<length palette.
                  rgb_distance rgb (snd (palette ! j)) = rgb_distance rgb (snd (palette ! i))
                  \<longrightarrow> fst (palette ! i) \<le> fst (palette ! j))))
       \<and> nearest_yuzu_color (5, 5, 5) [(''A001'', (0, 0, 0)), (''A002'', (10, 10, 10))]
           = Inr ''A001''"
proof -
  let ?D = "\<lambda>e. rgb_distance rgb (snd e)"
  from nearest_fold_first_minimum [OF assms, of rgb] obtain i where i: "i < length palette"
    and st: "foldl (nearest_step rgb) (None, None) palette
               = (Some (fst (palette ! i)), Some (?D (palette ! i)))"
    and mn: "\<forall>j<length palette. ?D (palette ! i) \<le> ?D (palette ! j)"
    and fs: "\<forall>j<i. ?D (palette ! i) < ?D (palette ! j)"
    by blast
  have res: "nearest_yuzu_color rgb palette = Inr (fst (palette ! i))"
    by (simp add: nearest_yuzu_color_def st)
  have srt: "fst (palette ! i) \<le> fst (palette ! j)"
    if s: "sorted (map fst palette)" and j: "j < length palette"
      and eq: "?D (palette ! j) = ?D (palette ! i)" for j
  proof -
    have ij: "i \<le> j" using fs eq by (metis less_irrefl not_le)
    have "map fst palette ! i \<le> map fst palette ! j"
      by (rule sorted_nth_mono [OF s ij]) (simp add: j)
    then show ?thesis using i j by simp
  qed
  have ex: "nearest_yuzu_color (5, 5, 5) [(''A001'', (0, 0, 0)), (''A002'', (10, 10, 10))]
              = Inr ''A001''"
    by (simp add: nearest_yuzu_color_def nearest_step_def rgb_distance_def)
  show ?thesis using i res mn fs srt ex by blast
qed

text \<open>
  The function does not sort: it follows the order of the dictionary it is given.  With
  the same two entries listed \<open>A002\<close> first, the tie goes to \<open>A002\<close>, which is not the
  first code in sorted order.
\<close>

theorem nearest_yuzu_color_sorted_counterexample:
  "nearest_yuzu_color (5, 5, 5) [(''A002'', (10, 10, 10)), (''A001'', (0, 0, 0))] = Inr ''A002''
   \<and> rgb_distance (5, 5, 5) (0, 0, 0) = rgb_distance (5, 5, 5) (10, 10, 10)
   \<and> ''A001'' < ''A002''"
  by (simp add: nearest_yuzu_color_def nearest_step_def rgb_distance_def)

theorem nearest_yuzu_color_first_minimum_witness:
  "[(''A001'', (0, 0, 0)), (''A002'', (255, 255, 255 :: int))] \<noteq> []
   \<and> nearest_yuzu_color (10, 10, 10) [(''A001'', (0, 0, 0)), (''A002'', (255, 255, 255))]
       = Inr ''A001''
   \<and> nearest_yuzu_color (5, 5, 5) [(''A001'', (0, 0, 0)), (''A002'', (10, 10, 10))]
       = Inr ''A001''"
proof -
  let ?p = "[(''A001'', (0, 0, 0)), (''A002'', (255, 255, 255 :: int))]"
  have ne: "?p \<noteq> []" by simp
  have "nearest_yuzu_color (10, 10, 10) ?p = Inr ''A001''"
    by (simp add: nearest_yuzu_color_def nearest_step_def rgb_distance_def)
  then show ?thesis using nearest_yuzu_color_first_minimum [OF ne, of "(10, 10, 10)"] by simp
qed

section \<open>Properties of the design generator\<close>

lemma dict_set_distinct: "distinct (map fst d) \<Longrightarrow> distinct (map fst (dict_set d k v))"
proof (induction d)
  case Nil
  show ?case by simp
next
  case (Cons a d)
  obtain k' v' where a: "a = (k', v')" by (cases a)
  show ?case using Cons by (cases "k' = k") (auto simp: a keys_dict_set)
qed

lemma map_of_dict_set: "map_of (dict_set d k v) = (map_of d)(k \<mapsto> v)"
proof (induction d)
  case Nil
  show ?case by simp
next
  case (Cons a d)
  obtain k' v' where a: "a = (k', v')" by (cases a)
  show ?case using Cons by (cases "k' = k") (auto simp: a fun_upd_twist)
qed

lemma bbox_fold_keys:
  "fst ` set (foldl (bbox_step p) acc reg) = fst ` set acc \<union> fst ` set reg"
  by (induction reg rule: rev_induct) (auto simp: bbox_step_def Let_def keys_dict_set)

lemma bbox_fold_distinct:
  "distinct (map fst acc) \<Longrightarrow> distinct (map fst (foldl (bbox_step p) acc reg))"
  by (induction reg rule: rev_induct) (simp_all add: bbox_step_def Let_def dict_set_distinct)

lemma bbox_fold_keys_list:
  "distinct (map fst reg) \<Longrightarrow> map fst (foldl (bbox_step p) [] reg) = map fst reg"
proof (induction reg rule: rev_induct)
  case Nil
  show ?case by simp
next
  case (snoc x reg)
  have d: "distinct (map fst reg)" and n: "fst x \<notin> fst ` set reg" using snoc.prems by auto
  have "fst x \<notin> set (map fst (foldl (bbox_step p) [] reg))"
    using n bbox_fold_keys [of p "[]" reg] by simp
  then show ?case using snoc.IH [OF d]
    by (simp add: bbox_step_def Let_def dict_set_fresh)
qed

lemma color_fold_Inl: "foldl (color_step f pal) (Inl e) xs = Inl e"
  by (induction xs) (simp_all add: color_step_def)

lemma color_step_Inr:
  assumes "color_step f pal acc x = Inr cc"
  obtains cc0 code where "acc = Inr cc0" "cc = dict_set cc0 (fst x) code"
  using assms by (auto simp: color_step_def split: sum.splits)

lemma color_fold_keys:
  assumes "foldl (color_step f pal) (Inr acc) xs = Inr cc"
  shows "fst ` set cc = fst ` set acc \<union> fst ` set xs
         \<and> (distinct (map fst acc) \<longrightarrow> distinct (map fst cc))"
  using assms
proof (induction xs arbitrary: cc rule: rev_induct)
  case Nil
  then show ?case by simp
next
  case (snoc x xs)
  from snoc.prems have "color_step f pal (foldl (color_step f pal) (Inr acc) xs) x = Inr cc"
    by simp
  then obtain cc0 code where cc0: "foldl (color_step f pal) (Inr acc) xs = Inr cc0"
    and cc: "cc = dict_set cc0 (fst x) code"
    by (rule color_step_Inr)
  show ?case using snoc.IH [OF cc0] by (auto simp: cc keys_dict_set dict_set_distinct)
qed

lemma color_fold_keys_list:
  assumes "foldl (color_step f pal) (Inr []) xs = Inr cc" "distinct (map fst xs)"
  shows "map fst cc = map fst xs"
  using assms
proof (induction xs arbitrary: cc rule: rev_induct)
  case Nil
  then show ?case by simp
next
  case (snoc x xs)
  from snoc.prems(1) have "color_step f pal (foldl (color_step f pal) (Inr []) xs) x = Inr cc"
    by simp
  then obtain cc0 code where cc0: "foldl (color_step f pal) (Inr []) xs = Inr cc0"
    and cc: "cc = dict_set cc0 (fst x) code"
    by (rule color_step_Inr)
  have d: "distinct (map fst xs)" and n: "fst x \<notin> fst ` set xs" using snoc.prems(2) by auto
  have k: "map fst cc0 = map fst xs" using snoc.IH [OF cc0 d] .
  then have "fst x \<notin> set (map fst cc0)" using n by simp
  then show ?case using k by (simp add: cc dict_set_fresh)
qed

lemma build_keyboard_bbox_map_Inr:
  assumes "build_keyboard_bbox_map w registry = Inr bm"
  obtains t where "py_max (map (\<lambda>item. right_u (snd item)) registry) = Inr t" "t \<noteq> 0"
    "bm = foldl (bbox_step (of_int w / t)) [] registry"
  using assms by (auto simp: build_keyboard_bbox_map_def Let_def split: sum.splits if_splits)

lemma generate_design_Inr:
  assumes "generate_design w f registry palette base = Inr doc"
  obtains bm cc where "build_keyboard_bbox_map w registry = Inr bm"
    "foldl (color_step f palette) (Inr []) bm = Inr cc"
    "doc = dict_set base ''customizedColor'' (JColors cc)"
  using assms by (auto simp: generate_design_def split: sum.splits)

text \<open>
  Claim C4.  Whenever a design document is generated from a geometry registry, its
  \<open>customizedColor\<close> map has exactly one entry per key id of the registry: the same set
  of keys, no key twice, and as many entries as the registry has keys (for a registry
  whose ids are distinct, as the keys of a dictionary are, the same ids in the same
  order).  The other fields of the base document are as they were.  When a document is
  generated at all is \<open>generate_design_succeeds\<close> below.
\<close>

theorem generate_design_covers_registry:
  assumes "generate_design image_width dominant_of registry palette base_json = Inr doc"
  shows "\<exists>customized_colors.
           map_of doc = (map_of base_json)(''customizedColor'' \<mapsto> JColors customized_colors)
         \<and> distinct (map fst customized_colors)
         \<and> set (map fst customized_colors) = set (map fst registry)
         \<and> length customized_colors = card (set (map fst registry))
         \<and> (distinct (map fst registry) \<longrightarrow>
              map fst customized_colors = map fst registry
              \<and> length customized_colors = length registry)"
proof -
  from assms obtain bm cc where bm: "build_keyboard_bbox_map image_width registry = Inr bm"
    and cc: "foldl (color_step dominant_of palette) (Inr []) bm = Inr cc"
    and doc: "doc = dict_set base_json ''customizedColor'' (JColors cc)"
    by (rule generate_design_Inr)
  from bm obtain t where bmf: "bm = foldl (bbox_step (of_int image_width / t)) [] registry"
    by (rule build_keyboard_bbox_map_Inr)
  have kb: "fst ` set bm = fst ` set registry" by (simp add: bmf bbox_fold_keys)
  have kc: "fst ` set cc = fst ` set bm" and dc: "distinct (map fst cc)"
    using color_fold_keys [OF cc] by simp_all
  have s: "set (map fst cc) = set (map fst registry)" using kb kc by simp
  have l: "length cc = card (set (map fst registry))"
    using distinct_card [OF dc] s by simp
  have o: "map fst cc = map fst registry \<and> length cc = length registry"
    if d: "distinct (map fst registry)"
  proof -
    have "map fst bm = map fst registry" using d by (simp add: bmf bbox_fold_keys_list)
    then have "map fst cc = map fst registry" using color_fold_keys_list [OF cc] d by simp
    then show ?thesis by (metis length_map)
  qed
  have "map_of doc = (map_of base_json)(''customizedColor'' \<mapsto> JColors cc)"
    by (simp add: doc map_of_dict_set)
  then show ?thesis using dc s l o by blast
qed

lemma color_fold_succeeds:
  assumes "palette \<noteq> []" "\<forall>b. \<exists>c. f b = Inr c"
  shows "\<exists>cc. foldl (color_step f palette) (Inr acc) xs = Inr cc"
proof (induction xs rule: rev_induct)
  case Nil
  show ?case by simp
next
  case (snoc x xs)
  then obtain cc0 where cc0: "foldl (color_step f palette) (Inr acc) xs = Inr cc0" by blast
  obtain c where c: "f (snd x) = Inr c" using assms(2) by blast
  obtain code where "nearest_yuzu_color c palette = Inr code"
    using nearest_fold_first_minimum [OF assms(1), of c]
    by (auto simp: nearest_yuzu_color_def)
  then have "color_step f palette (Inr cc0) x = Inr (dict_set cc0 (fst x) code)"
    by (simp add: color_step_def c)
  then show ?case by (simp add: cc0)
qed

lemma generate_design_succeeds:
  assumes "py_max (map (\<lambda>item. right_u (snd item)) registry) = Inr t" "t \<noteq> 0"
    and "palette \<noteq> []" "\<forall>b. \<exists>c. dominant_of b = Inr c"
  shows "\<exists>doc. generate_design image_width dominant_of registry palette base_json = Inr doc"
proof -
  obtain cc where "foldl (color_step dominant_of palette) (Inr [])
      (foldl (bbox_step (of_int image_width / t)) [] registry) = Inr cc"
    using color_fold_succeeds [OF assms(3,4)] by blast
  then show ?thesis using assms(1,2)
    by (simp add: generate_design_def build_keyboard_bbox_map_def)
qed

theorem generate_design_covers_registry_witness:
  "generate_design 100 (\<lambda>b. Inr (200, 60, 60))
     [(''k1'', \<lparr>label = Some ''Esc'', x_u = 2, y_u = 1, width_u = 1, height_u = 1,
                left_u = 0, top_u = 0, right_u = 1, bottom_u = 1\<rparr>),
      (''k2'', \<lparr>label = None, x_u = 3, y_u = 1, width_u = 3 / 2, height_u = 1,
                left_u = 1, top_u = 0, right_u = 5 / 2, bottom_u = 1\<rparr>)]
     [(''A001'', (0, 0, 0)), (''A002'', (255, 255, 255))]
     [(''name'', JOther ''base'')]
   = Inr [(''name'', JOther ''base''),
          (''customizedColor'', JColors [(''k1'', ''A001''), (''k2'', ''A001'')])]"
proof -
  let ?reg = "[(''k1'', \<lparr>label = Some ''Esc'', x_u = 2, y_u = 1, width_u = 1, height_u = 1,
                left_u = 0, top_u = 0, right_u = 1, bottom_u = 1\<rparr>),
      (''k2'', \<lparr>label = None, x_u = 3, y_u = 1, width_u = 3 / 2, height_u = 1,
                left_u = 1, top_u = 0, right_u = 5 / 2, bottom_u = 1\<rparr>)]"
  have bm: "build_keyboard_bbox_map 100 ?reg
              = Inr [(''k1'', (0, 0, 40, 40)), (''k2'', (40, 0, 100, 40))]"
    by code_simp
  have run: "generate_design 100 (\<lambda>b. Inr (200, 60, 60)) ?reg
       [(''A001'', (0, 0, 0)), (''A002'', (255, 255, 255))] [(''name'', JOther ''base'')]
     = Inr [(''name'', JOther ''base''),
            (''customizedColor'', JColors [(''k1'', ''A001''), (''k2'', ''A001'')])]"
    unfolding generate_design_def bm
    by (simp add: color_step_def nearest_yuzu_color_def nearest_step_def rgb_distance_def)
  show ?thesis using generate_design_covers_registry [OF run] run by simp
qed

section \<open>Properties of the geometry parser\<close>

subsection \<open>A position that cannot be read aborts the parse\<close>

lemma gather_step_Inl: "gather_step (Inl e) elem = Inl e"
  by (simp add: gather_step_def)

lemma gather_fold_Inl: "foldl gather_step (Inl e) elems = Inl e"
  by (induction elems) (simp_all add: gather_step_Inl)

lemma gather_step_bad_position:
  "key_position elem = Inl e \<Longrightarrow> \<exists>e'. gather_step acc elem = Inl e'"
  by (cases acc) (simp_all add: gather_step_def)

lemma gather_bad_position:
  assumes "elem \<in> set elems" "key_position elem = Inl e"
  shows "\<exists>e'. gather elems = Inl e'"
proof -
  from assms(1) obtain pre post where elems: "elems = pre @ elem # post"
    by (auto simp: in_set_conv_decomp)
  obtain e' where "gather_step (foldl gather_step (Inr \<lparr>raw = [], min_x = None, min_y = None\<rparr>) pre) elem = Inl e'"
    using gather_step_bad_position [OF assms(2)] by blast
  then show ?thesis by (simp add: gather_def elems gather_fold_Inl)
qed

lemma parse_key_layout_aborts:
  assumes "elem \<in> set elems" "key_position elem = Inl e"
  shows "\<exists>e'. parse_key_layout elems = Inl e'"
  using gather_bad_position [OF assms] by (auto simp: parse_key_layout_def)

lemma key_position_no_token:
  assumes "data_key_x elem = Some s" "py_float s = Inl ValueError" "first_number s = None"
  shows "key_position elem = Inl IndexError"
  using assms
  by (simp add: key_position_def direct_float_def fallback_position_def extracted_float_def)

subsection \<open>The origin when no element is skipped\<close>

text \<open>
  When every element has a \<open>rect\<close> and the key ids are distinct, the minima of the first
  pass are attained by items of \<open>raw\<close>, and the registry of a layout that is not empty
  has its least \<open>left_u\<close> and its least \<open>top_u\<close> at 0.
\<close>

lemma round_half_even_nonneg: "0 \<le> x \<Longrightarrow> 0 \<le> round_half_even x"
proof -
  assume "0 \<le> x"
  then have "0 \<le> \<lfloor>x\<rfloor>" by simp
  then show ?thesis by (simp add: round_half_even_def Let_def)
qed

lemma py_round4_nonneg: "0 \<le> x \<Longrightarrow> 0 \<le> py_round4 x"
  by (simp add: py_round4_def round_half_even_nonneg)

lemma py_round4_zero: "py_round4 0 = 0"
  by (simp add: py_round4_def round_half_even_def)

lemma gather_snoc: "gather (elems @ [elem]) = gather_step (gather elems) elem"
  by (simp add: gather_def)

lemma gather_step_Inr_rect:
  assumes "gather_step acc elem = Inr st" "rect elem \<noteq> None"
  obtains st0 xu yu wu hu where "acc = Inr st0"
    "raw st = raw st0 @ [(data_key_id elem, xu, yu, wu, hu, data_key_labelid elem)]"
    "min_x st = py_min (min_x st0) xu" "min_y st = py_min (min_y st0) yu"
proof -
  from assms(1) obtain st0 where a: "acc = Inr st0"
    by (cases acc) (simp_all add: gather_step_def)
  from assms(1) a obtain xu yu where p: "key_position elem = Inr (xu, yu)"
    by (cases "key_position elem") (auto simp: gather_step_def)
  from assms(2) obtain r where r: "rect elem = Some r" by auto
  from assms(1) a p r obtain w h where s: "rect_size r = Inr (w, h)"
    by (cases "rect_size r") (auto simp: gather_step_def Let_def)
  have "st = st0\<lparr>min_x := py_min (min_x st0) xu, min_y := py_min (min_y st0) yu,
          raw := raw st0 @ [(data_key_id elem, xu, yu, py_round4 (w / UNIT_MM),
                             py_round4 (h / UNIT_MM), data_key_labelid elem)]\<rparr>"
    using assms(1) by (simp add: gather_step_def a p r s Let_def)
  then show ?thesis using a by (intro that) simp_all
qed

lemma py_min_least:
  assumes "m = None \<or> (\<exists>v. m = Some v \<and> v \<in> S \<and> (\<forall>x\<in>S. v \<le> x))" "m = None \<longrightarrow> S = {}"
  shows "\<exists>v. py_min m x = Some v \<and> v \<in> insert x S \<and> (\<forall>y\<in>insert x S. v \<le> y)"
proof (cases m)
  case None
  then show ?thesis using assms(2) by (simp add: py_min_def)
next
  case (Some v)
  then have v: "v \<in> S" "\<forall>x\<in>S. v \<le> x" using assms(1) by auto
  show ?thesis
  proof (cases "v \<le> x")
    case True
    then show ?thesis using v Some by (auto simp: py_min_def min_def)
  next
    case False
    then have "x \<le> v" by simp
    then show ?thesis using v Some False by (auto simp: py_min_def min_def intro: order_trans)
  qed
qed

lemma gather_all_rects:
  assumes "gather elems = Inr st" "\<forall>e\<in>set elems. rect e \<noteq> None"
  shows "map fst (raw st) = map data_key_id elems
       \<and> (elems = [] \<longrightarrow> min_x st = None \<and> min_y st = None)
       \<and> (elems \<noteq> [] \<longrightarrow>
            (\<exists>mx. min_x st = Some mx \<and> mx \<in> raw_x ` set (raw st)
                  \<and> (\<forall>v\<in>raw_x ` set (raw st). mx \<le> v))
          \<and> (\<exists>my. min_y st = Some my \<and> my \<in> raw_y ` set (raw st)
                  \<and> (\<forall>v\<in>raw_y ` set (raw st). my \<le> v)))"
  using assms
proof (induction elems arbitrary: st rule: rev_induct)
  case Nil
  then show ?case by (auto simp: gather_def)
next
  case (snoc elem elems)
  from snoc.prems have step: "gather_step (gather elems) elem = Inr st"
    and r: "rect elem \<noteq> None" and rs: "\<forall>e\<in>set elems. rect e \<noteq> None"
    by (simp_all add: gather_snoc)
  from step r obtain st0 xu yu wu hu where st0: "gather elems = Inr st0"
    and raw: "raw st = raw st0 @ [(data_key_id elem, xu, yu, wu, hu, data_key_labelid elem)]"
    and mx: "min_x st = py_min (min_x st0) xu" and my: "min_y st = py_min (min_y st0) yu"
    by (rule gather_step_Inr_rect)
  note IH = snoc.IH [OF st0 rs]
  have ids: "map fst (raw st) = map data_key_id (elems @ [elem])"
    using IH by (simp add: raw)
  have e0: "raw st0 = [] \<longleftrightarrow> elems = []"
    using IH by (metis map_is_Nil_conv)
  have sx: "raw_x ` set (raw st) = insert xu (raw_x ` set (raw st0))"
    and sy: "raw_y ` set (raw st) = insert yu (raw_y ` set (raw st0))"
    by (simp_all add: raw raw_x_def raw_y_def)
  have "\<exists>v. py_min (min_x st0) xu = Some v \<and> v \<in> insert xu (raw_x ` set (raw st0))
          \<and> (\<forall>y\<in>insert xu (raw_x ` set (raw st0)). v \<le> y)"
    using IH e0 by (intro py_min_least) (cases "elems = []"; auto)+
  moreover
  have "\<exists>v. py_min (min_y st0) yu = Some v \<and> v \<in> insert yu (raw_y ` set (raw st0))
          \<and> (\<forall>y\<in>insert yu (raw_y ` set (raw st0)). v \<le> y)"
    using IH e0 by (intro py_min_least) (cases "elems = []"; auto)+
  ultimately show ?case using ids by (simp only: mx my sx sy) simp
qed


lemma registry_step_keys:
  "fst ` set (registry_step mx my registry item) = insert (fst item) (fst ` set registry)"
  by (cases item) (simp add: registry_step_def Let_def keys_dict_set)

lemma registry_fold_keys:
  "fst ` set (foldl (registry_step mx my) acc items) = fst ` set acc \<union> fst ` set items"
  by (induction items rule: rev_induct) (auto simp: registry_step_keys)

lemma registry_step_fresh:
  assumes "fst item \<notin> fst ` set registry"
  shows "left_u ` snd ` set (registry_step mx my registry item)
           = insert (py_round4 (raw_x item - mx)) (left_u ` snd ` set registry)"
    and "top_u ` snd ` set (registry_step mx my registry item)
           = insert (py_round4 (raw_y item - my)) (top_u ` snd ` set registry)"
  using assms
  by (cases item; simp add: registry_step_def Let_def dict_set_fresh raw_x_def raw_y_def)+

lemma registry_fold_origin:
  assumes "distinct (map fst items)"
  shows "left_u ` snd ` set (foldl (registry_step mx my) [] items)
           = (\<lambda>item. py_round4 (raw_x item - mx)) ` set items
       \<and> top_u ` snd ` set (foldl (registry_step mx my) [] items)
           = (\<lambda>item. py_round4 (raw_y item - my)) ` set items"
  using assms
proof (induction items rule: rev_induct)
  case Nil
  show ?case by simp
next
  case (snoc item items)
  have d: "distinct (map fst items)" and n: "fst item \<notin> fst ` set items"
    using snoc.prems by auto
  have f: "fst item \<notin> fst ` set (foldl (registry_step mx my) [] items)"
    using n by (simp add: registry_fold_keys)
  show ?case using snoc.IH [OF d] by (simp add: registry_step_fresh [OF f])
qed

lemma Min_zero:
  assumes "finite S" "(0::rat) \<in> S" "\<forall>v\<in>S. 0 \<le> v"
  shows "Min S = 0"
  using assms by (intro Min_eqI) auto

lemma parse_key_layout_origin:
  assumes "parse_key_layout elems = Inr registry" "elems \<noteq> []"
    and "\<forall>e\<in>set elems. rect e \<noteq> None" "distinct (map data_key_id elems)"
  shows "Min (left_u ` snd ` set registry) = 0 \<and> Min (top_u ` snd ` set registry) = 0"
proof -
  from assms(1) obtain st where st: "gather elems = Inr st"
    by (cases "gather elems") (simp_all add: parse_key_layout_def)
  note g = gather_all_rects [OF st assms(3)]
  from g assms(2) obtain mx my where mx: "min_x st = Some mx" "mx \<in> raw_x ` set (raw st)"
    "\<forall>v\<in>raw_x ` set (raw st). mx \<le> v"
    and my: "min_y st = Some my" "my \<in> raw_y ` set (raw st)"
    "\<forall>v\<in>raw_y ` set (raw st). my \<le> v"
    by blast
  have reg: "registry = foldl (registry_step mx my) [] (raw st)"
    using assms(1) by (simp add: parse_key_layout_def st mx(1) my(1))
  have d: "distinct (map fst (raw st))" using g assms(4) by simp
  note o = registry_fold_origin [OF d, of mx my, folded reg]
  have "Min ((\<lambda>item. py_round4 (raw_x item - mx)) ` set (raw st)) = 0"
  proof (rule Min_zero)
    show "finite ((\<lambda>item. py_round4 (raw_x item - mx)) ` set (raw st))" by simp
    obtain item where "item \<in> set (raw st)" "raw_x item = mx" using mx(2) by auto
    then have "py_round4 (raw_x item - mx) = 0" by (simp add: py_round4_zero)
    then show "0 \<in> (\<lambda>item. py_round4 (raw_x item - mx)) ` set (raw st)"
      using \<open>item \<in> set (raw st)\<close> by (metis (mono_tags, lifting) image_eqI)
    show "\<forall>v\<in>(\<lambda>item. py_round4 (raw_x item - mx)) ` set (raw st). 0 \<le> v"
      using mx(3) by (auto intro!: py_round4_nonneg)
  qed
  moreover have "Min ((\<lambda>item. py_round4 (raw_y item - my)) ` set (raw st)) = 0"
  proof (rule Min_zero)
    show "finite ((\<lambda>item. py_round4 (raw_y item - my)) ` set (raw st))" by simp
    obtain item where "item \<in> set (raw st)" "raw_y item = my" using my(2) by auto
    then have "py_round4 (raw_y item - my) = 0" by (simp add: py_round4_zero)
    then show "0 \<in> (\<lambda>item. py_round4 (raw_y item - my)) ` set (raw st)"
      using \<open>item \<in> set (raw st)\<close> by (metis (mono_tags, lifting) image_eqI)
    show "\<forall>v\<in>(\<lambda>item. py_round4 (raw_y item - my)) ` set (raw st). 0 \<le> v"
      using my(3) by (auto intro!: py_round4_nonneg)
  qed
  ultimately show ?thesis using o by simp
qed

subsection \<open>Evaluation at concrete layouts\<close>

lemmas float_defs = py_float_def py_strip_def is_space_def is_digit_def float_exponent_def
  py_int_def digit_val_def Let_def

lemma py_float_19_05: "py_float ''19.05'' = Inr (381 / 20)" by (simp add: float_defs)
lemma py_float_abc: "py_float ''abc'' = Inl ValueError" by (simp add: float_defs)
lemma first_number_abc: "first_number ''abc'' = None" by (simp add: is_digit_def)
lemma py_float_0_1: "py_float ''0'' = Inr 0" "py_float ''1'' = Inr 1" by (simp_all add: float_defs)
lemma round_half_even_examples: "round_half_even 0 = 0" "round_half_even 10000 = 10000" "round_half_even 20000 = 20000"
  by (simp_all add: round_half_even_def)
lemma py_round4_examples: "py_round4 0 = 0" "py_round4 1 = 1" "py_round4 2 = 2"
  by (simp_all add: py_round4_def round_half_even_examples)
lemmas parse_defs = parse_key_layout_def gather_def gather_step_def key_position_def
  direct_float_def fallback_position_def extracted_float_def rect_size_def py_min_def
  registry_step_def


text \<open>
  Claim C6.  The claim asks that a key element whose positional attribute is neither a
  decimal number nor contains a numeric token be skipped, and the rest of the batch be
  processed.  The \<open>except\<close> block indexes the empty list of matches, so the
  \<open>IndexError\<close> leaves \<open>parse_key_layout\<close> and no registry is built
  (\<open>key_position_no_token\<close>, \<open>parse_key_layout_aborts\<close>), while an element without a
  \<open>rect\<close> is passed over by \<open>continue\<close>.  Here the first of two elements has
  \<open>data-key-x="abc"\<close> and the second is well formed.
\<close>

theorem parse_key_layout_no_numeric_token:
  "parse_key_layout
     [\<lparr>data_key_id = ''k1'', data_key_x = Some ''abc'', data_key_y = Some ''0'',
       data_key_labelid = None,
       rect = Some \<lparr>rect_width = Some ''19.05'', rect_height = Some ''19.05''\<rparr>\<rparr>,
      \<lparr>data_key_id = ''k2'', data_key_x = Some ''1'', data_key_y = Some ''1'',
       data_key_labelid = Some ''Esc'',
       rect = Some \<lparr>rect_width = Some ''19.05'', rect_height = Some ''19.05''\<rparr>\<rparr>]
   = Inl IndexError"
  by (simp add: parse_defs py_float_19_05 py_float_abc first_number_abc
      py_float_0_1 Let_def del: first_number.simps)

text \<open>
  Claim C1.  The claim asks that the minimum of \<open>left_u\<close> and of \<open>top_u\<close> over the keys
  of the registry be 0, also when elements are skipped for want of a \<open>rect\<close>, and the
  comments of the second pass say that the top-left key starts at \<open>(0, 0)\<close>.  The
  first pass updates the minima before it looks for the \<open>rect\<close>, so a skipped element
  still moves the origin; without skipped elements the minima are 0
  (\<open>parse_key_layout_origin\<close>).  Here the element at \<open>(0, 0)\<close> has no \<open>rect\<close>; the only key
  of the registry, at \<open>(1, 1)\<close>, gets \<open>left_u = 1\<close> and \<open>top_u = 1\<close>.
\<close>

theorem parse_key_layout_skipped_minimum:
  "parse_key_layout
     [\<lparr>data_key_id = ''k1'', data_key_x = Some ''0'', data_key_y = Some ''0'',
       data_key_labelid = None, rect = None\<rparr>,
      \<lparr>data_key_id = ''k2'', data_key_x = Some ''1'', data_key_y = Some ''1'',
       data_key_labelid = Some ''Esc'',
       rect = Some \<lparr>rect_width = Some ''19.05'', rect_height = Some ''19.05''\<rparr>\<rparr>]
   = Inr [(''k2'', \<lparr>label = Some ''Esc'', x_u = 1, y_u = 1, width_u = 1, height_u = 1,
                    left_u = 1, top_u = 1, right_u = 2, bottom_u = 2\<rparr>)]"
  by (simp add: parse_defs py_float_19_05 py_float_0_1 py_round4_examples
       UNIT_MM_def Let_def)

end
